theory Spec2Isabelle
  imports Main "HOL-Library.Word" "HOL-Library.Signed_Division"
begin

unbundle bit_operations_syntax

section \<open>Machine types of client/proto/rappor.cc\<close>

text \<open>
  The C++ \<open>int\<close> and \<open>unsigned int\<close> are 32-bit words; \<open>sint\<close> reads a word as
  the signed value, \<open>uint\<close> and \<open>unat\<close> as the unsigned one. \<open>ByteVector\<close> is the
  source's \<open>typedef uint64_t ByteVector\<close>. A \<open>std::string\<close> is a sequence of bytes.

  Conventions for what C++ leaves open:
  \<^item> signed \<open>int\<close> arithmetic wraps around modulo \<open>2 ^ 32\<close> (two's complement), the
    behaviour the string hash relies on;
  \<^item> \<open>char\<close> is signed, so a byte of a string is sign-extended when it is promoted to
    \<open>int\<close> (bytes below 128 are not affected);
  \<^item> a shift takes its count modulo the width of the shifted type (modulo 32 for
    \<open>int\<close>, modulo 64 for \<open>uint64_t\<close>), as the shift instructions of the machine do, and
    the run goes on;
  \<^item> the division instruction traps on a zero divisor and on \<open>INT_MIN / -1\<close>; this, a
    write through a pointer past the objects it addresses, and the
    \<open>std::length_error\<close> of \<open>reserve\<close> end the run with a \<open>fault\<close>;
  \<^item> a local that is read before it is assigned (\<open>ByteVector bloom;\<close>) holds an arbitrary
    value, which is an argument \<open>bloom0\<close> of the model;
  \<^item> neither \<open>Encode\<close> has a \<open>return\<close> statement, so the model has no \<open>bool\<close> result:
    it returns the effects of the call;
  \<^item> a string is shorter than \<open>2 ^ 31\<close> bytes, so the \<open>int\<close> index of the hash's inner
    loop reaches every byte of it;
  \<^item> \<open>log\<close> and \<open>PrintMd5\<close> only print and are left out.
\<close>

type_synonym cint = "32 word"
type_synonym cuint = "32 word"
type_synonym ByteVector = "64 word"
type_synonym cxx_string = "8 word list"


datatype fault = DivisionFault | OutOfBounds | LengthError

section \<open>Declarations of rappor.h used by the code\<close>

text \<open>
  Modelled from the spec: the class \<open>Params\<close> of rappor.h, which is not among the
  sources. Of the parameter set (\<open>num_bits\<close>, \<open>num_hashes\<close>, \<open>prob_f\<close>, \<open>prob_p\<close>,
  \<open>prob_q\<close>) the code of rappor.cc reads \<open>num_bits()\<close> and \<open>num_hashes()\<close> only, both as
  \<open>int\<close>; the probabilities are consumed by the randomness capabilities.
\<close>

record Params =
  num_bits :: cint
  num_hashes :: cint

text \<open>
  Modelled from the spec: the interfaces \<open>DeterministicRandInterface\<close> and
  \<open>RandInterface\<close> of rappor.h. Each is a table of operations over the state \<open>'d\<close>
  (or \<open>'r\<close>) of the object implementing it: \<open>seed\<close> re-initialises the state from a
  string, and every draw returns a bit pattern, already converted to \<open>ByteVector\<close>,
  together with the next state.
\<close>

record 'd DeterministicRandInterface =
  seed :: "cxx_string \<Rightarrow> 'd \<Rightarrow> 'd"
  f_bits :: "'d \<Rightarrow> ByteVector \<times> 'd"
  uniform :: "'d \<Rightarrow> ByteVector \<times> 'd"

record 'r RandInterface =
  p_bits :: "'r \<Rightarrow> ByteVector \<times> 'r"
  q_bits :: "'r \<Rightarrow> ByteVector \<times> 'r"

text \<open>
  Modelled from the spec: \<open>Md5Digest\<close> and \<open>Md5Func\<close> of rappor.h. A digest is an array
  of unsigned bytes, read by index; the digest function maps a string to its digest.
\<close>

type_synonym Md5Digest = "nat \<Rightarrow> 8 word"
type_synonym Md5Func = "cxx_string \<Rightarrow> Md5Digest"

section \<open>LibcRand (libc_rand.cc, lines 41-51)\<close>

definition LibcRand_f_bits :: cuint where
  "LibcRand_f_bits = 0"

definition LibcRand_p_bits :: cuint where
  "LibcRand_p_bits = 0"

definition LibcRand_q_bits :: cuint where
  "LibcRand_q_bits = 0"

text \<open>
  \<open>LibcRand\<close> in the role of the \<open>RandInterface\<close> an \<open>Encoder\<close> draws from: the
  \<open>unsigned int\<close> results are zero-extended to \<open>ByteVector\<close>, and no state is touched.
\<close>

definition LibcRand :: "'r RandInterface" where
  "LibcRand = \<lparr> p_bits = (\<lambda>r. (ucast LibcRand_p_bits, r)),
                q_bits = (\<lambda>r. (ucast LibcRand_q_bits, r)) \<rparr>"

section \<open>Encoder (rappor.cc, lines 30-112)\<close>

record ('d, 'r) Encoder =
  cohort :: cint
  params :: Params
  rand :: "'r RandInterface"
  det_rand :: "'d DeterministicRandInterface"
  num_bytes :: cint
  is_valid :: bool

definition Encoder_Encoder ::
  "cxx_string \<Rightarrow> cint \<Rightarrow> Params \<Rightarrow> 'd DeterministicRandInterface \<Rightarrow> 'r RandInterface
     \<Rightarrow> ('d, 'r) Encoder" where
  "Encoder_Encoder metric_name cohort0 params0 det_rand0 rand0 =
     (let e = \<lparr> cohort = cohort0, params = params0, rand = rand0, det_rand = det_rand0,
                 num_bytes = 0, is_valid = True \<rparr>
      in if sint (num_bits params0) smod 8 = 0
         then e\<lparr> num_bytes := word_of_int (sint (num_bits params0) sdiv 8) \<rparr>
         else e\<lparr> is_valid := False \<rparr>)"

definition Encoder_IsValid :: "('d, 'r) Encoder \<Rightarrow> bool" where
  "Encoder_IsValid e = is_valid e"

text \<open>The inner loop of the hashing (lines 64-67): \<open>h = (h << 5) + h + value[j]\<close>.\<close>

definition hash_step :: "cint \<Rightarrow> 8 word \<Rightarrow> cint" where
  "hash_step h c = push_bit 5 h + h + scast c"

definition hash_value :: "cxx_string \<Rightarrow> cint" where
  "hash_value v = foldl hash_step 5381 v"

text \<open>The inputs on which the division behind \<open>h % nb\<close> on \<open>int\<close> traps.\<close>

definition remainder_traps :: "cint \<Rightarrow> cint \<Rightarrow> bool" where
  "remainder_traps h nb = (nb = 0 \<or> (sint h = - (2 ^ 31) \<and> sint nb = - 1))"

text \<open>
  Line 68, \<open>unsigned int bit_to_set = h % params_.num_bits()\<close>: the remainder of the
  signed division, which has the sign of \<open>h\<close>, converted to \<open>unsigned int\<close>.
\<close>

definition bit_to_set_of :: "cint \<Rightarrow> cint \<Rightarrow> fault + cuint" where
  "bit_to_set_of h nb =
     (if remainder_traps h nb then Inl DivisionFault
      else Inr (word_of_int (sint h smod sint nb)))"

text \<open>
  \<open>1 << n\<close> on \<open>int\<close>, for a count held in a 32-bit word (an \<open>unsigned int\<close> at line 71, an
  \<open>int\<close> at line 193): the low five bits of the count are used.
\<close>

definition shl_one :: "32 word \<Rightarrow> cint" where
  "shl_one n = push_bit (unat (n AND 31)) 1"

text \<open>
  The hashing loop (lines 62-72). The index \<open>i\<close> runs from 0 while it is below
  \<open>num_hashes\<close>; the \<open>int\<close> result of the shift is sign-extended when it is or-ed into
  the 64-bit \<open>bloom\<close>.
\<close>

function hash_loop :: "Params \<Rightarrow> cxx_string \<Rightarrow> int \<Rightarrow> ByteVector \<Rightarrow> fault + ByteVector" where
  "hash_loop ps v i bloom =
     (if i < sint (num_hashes ps) then
        (let h = hash_value v in
         case bit_to_set_of h (num_bits ps) of
           Inl e \<Rightarrow> Inl e
         | Inr bit_to_set \<Rightarrow> hash_loop ps v (i + 1) (bloom OR scast (shl_one bit_to_set)))
      else Inr bloom)"
  by pat_completeness auto
termination
  by (relation "measure (\<lambda>(ps, v, i, bloom). nat (sint (num_hashes ps) - i))") auto

text \<open>The locals of \<open>Encoder::Encode\<close> at line 100, and the states of the two capabilities.\<close>

record ('d, 'r) locals =
  l_bloom :: ByteVector
  l_f_bits :: ByteVector
  l_uniform :: ByteVector
  l_prr :: ByteVector
  l_p_bits :: ByteVector
  l_q_bits :: ByteVector
  l_irr :: ByteVector
  l_det :: 'd
  l_rand :: 'r

text \<open>Lines 58-100 of \<open>Encoder::Encode\<close>: hashing, PRR and IRR.\<close>

definition Encoder_Encode_bits ::
  "('d, 'r) Encoder \<Rightarrow> ByteVector \<Rightarrow> cxx_string \<Rightarrow> 'd \<Rightarrow> 'r \<Rightarrow> fault + ('d, 'r) locals" where
  "Encoder_Encode_bits e bloom0 v d r =
     (case hash_loop (params e) v 0 bloom0 of
        Inl err \<Rightarrow> Inl err
      | Inr bloom \<Rightarrow>
          (let d1 = seed (det_rand e) v d;
               (f, d2) = f_bits (det_rand e) d1;
               (u, d3) = uniform (det_rand e) d2;
               prr = (f AND u) OR (bloom AND NOT u);
               (p, r1) = p_bits (rand e) r;
               (q, r2) = q_bits (rand e) r1;
               irr = (p AND NOT prr) OR (q AND prr)
           in Inr \<lparr> l_bloom = bloom, l_f_bits = f, l_uniform = u, l_prr = prr,
                    l_p_bits = p, l_q_bits = q, l_irr = irr, l_det = d3, l_rand = r2 \<rparr>))"

text \<open>
  Lines 104-111. \<open>output\<close> is a \<open>std::string*\<close>, so \<open>output[i]\<close> is the \<open>i\<close>-th string
  object counted from the one \<open>output\<close> points to, and assigning the integer
  \<open>irr & 0xFF\<close> to it selects \<open>std::string::operator=(char)\<close>: that string becomes the
  one-character string of the byte. The model's \<open>output\<close> is the list of the string
  objects that the pointer addresses (a caller passing \<open>&s\<close> gives \<open>[s]\<close>).
  \<open>reserve\<close> changes no content; it takes a \<open>size_t\<close>, so a negative \<open>num_bytes_\<close>
  exceeds \<open>max_size()\<close>.
\<close>

function copy_irr :: "int \<Rightarrow> int \<Rightarrow> ByteVector \<Rightarrow> cxx_string list \<Rightarrow> fault + cxx_string list" where
  "copy_irr i n irr output =
     (if i < n then
        (if 0 \<le> i \<and> nat i < length output
         then copy_irr (i + 1) n (drop_bit 8 irr) (output[nat i := [ucast (irr AND 0xFF)]])
         else Inl OutOfBounds)
      else Inr output)"
  by pat_completeness auto
termination
  by (relation "measure (\<lambda>(i, n, irr, output). nat (n - i))") auto

definition write_output :: "cint \<Rightarrow> ByteVector \<Rightarrow> cxx_string list \<Rightarrow> fault + cxx_string list" where
  "write_output nbytes irr output =
     (if output = [] then Inl OutOfBounds
      else if sint nbytes < 0 then Inl LengthError
      else copy_irr 0 (sint nbytes) irr output)"

text \<open>
  \<open>Encoder::Encode\<close> (lines 57-112): the strings behind \<open>output\<close> and the states of the
  two capabilities after the call.
\<close>

definition Encoder_Encode ::
  "('d, 'r) Encoder \<Rightarrow> ByteVector \<Rightarrow> cxx_string \<Rightarrow> cxx_string list \<Rightarrow> 'd \<Rightarrow> 'r
     \<Rightarrow> fault + (cxx_string list \<times> 'd \<times> 'r)" where
  "Encoder_Encode e bloom0 v output d r =
     (case Encoder_Encode_bits e bloom0 v d r of
        Inl err \<Rightarrow> Inl err
      | Inr l \<Rightarrow>
          (case write_output (num_bytes e) (l_irr l) output of
             Inl err \<Rightarrow> Inl err
           | Inr output' \<Rightarrow> Inr (output', l_det l, l_rand l)))"

section \<open>HashPartWidth (rappor.cc, lines 119-128)\<close>

definition HashPartWidth :: "cint \<Rightarrow> cint" where
  "HashPartWidth bloom_width =
     (if bloom_width = 8 then 3
      else if bloom_width = 16 then 4
      else if bloom_width = 32 then 5
      else if bloom_width = 64 then 6
      else if bloom_width = 128 then 7
      else - 1)"


section \<open>Encoder2 (rappor.cc, lines 130-237)\<close>

record Encoder2 =
  e2_cohort :: cint
  e2_params :: Params
  md5_func :: Md5Func
  hash_part_width :: cint
  e2_num_bytes :: cint
  e2_is_valid :: bool

text \<open>
  The constructor (lines 130-159). \<open>hmac_func_\<close> and \<open>irr_rand_\<close> are stored and never
  used by the code, and are left out of the record.
\<close>

definition Encoder2_Encoder2 :: "cxx_string \<Rightarrow> cint \<Rightarrow> Params \<Rightarrow> Md5Func \<Rightarrow> Encoder2" where
  "Encoder2_Encoder2 metric_name cohort0 params0 md5_func0 =
     (let e = \<lparr> e2_cohort = cohort0, e2_params = params0, md5_func = md5_func0,
                 hash_part_width = HashPartWidth (num_bits params0),
                 e2_num_bytes = 0, e2_is_valid = True \<rparr>
      in if sint (num_bits params0) smod 8 = 0
         then e\<lparr> e2_num_bytes := word_of_int (sint (num_bits params0) sdiv 8) \<rparr>
         else e\<lparr> e2_is_valid := False \<rparr>)"

definition Encoder2_IsValid :: "Encoder2 \<Rightarrow> bool" where
  "Encoder2_IsValid e = e2_is_valid e"

text \<open>
  \<open>hash >> hash_part_width_\<close> on \<open>uint64_t\<close> with an \<open>int\<close> count: the value of the
  expression, which uses the low six bits of the count.
\<close>

definition shr_hash :: "ByteVector \<Rightarrow> cint \<Rightarrow> ByteVector" where
  "shr_hash hash w = drop_bit (unat (w AND 63)) hash"

text \<open>
  The hashing loop (lines 187-195). \<open>hash % num_bits\<close> is unsigned, with \<open>num_bits\<close>
  converted to \<open>uint64_t\<close>, and its result is converted to \<open>int\<close>. Line 194 is the
  expression statement \<open>hash >> hash_part_width_;\<close>: its value is computed and
  dropped, so every iteration sees the same \<open>hash\<close>.
\<close>

function hash2_loop :: "Encoder2 \<Rightarrow> ByteVector \<Rightarrow> int \<Rightarrow> ByteVector \<Rightarrow> fault + ByteVector" where
  "hash2_loop e hash i bloom =
     (if i < sint (num_hashes (e2_params e)) then
        (if num_bits (e2_params e) = 0 then Inl DivisionFault
         else
           (let bit_to_set = (ucast (hash mod scast (num_bits (e2_params e))) :: cint);
                bloom' = bloom OR scast (shl_one bit_to_set);
                dropped = shr_hash hash (hash_part_width e)
            in hash2_loop e hash (i + 1) bloom'))
      else Inr bloom)"
  by pat_completeness auto
termination
  by (relation "measure (\<lambda>(e, hash, i, bloom). nat (sint (num_hashes (e2_params e)) - i))") auto

text \<open>
  \<open>Encoder2::Encode\<close> (lines 171-237). Line 185 is \<open>hash = md5[0] | md5[1] << 8\<close>. The
  PRR, IRR and copying code of lines 196-236 is inside a comment, so the call ends
  after the hashing loop: the result is the local \<open>bloom\<close> and the strings behind
  \<open>output\<close>, which no statement writes.
\<close>

definition Encoder2_Encode ::
  "Encoder2 \<Rightarrow> ByteVector \<Rightarrow> cxx_string \<Rightarrow> cxx_string list \<Rightarrow> fault + (ByteVector \<times> cxx_string list)" where
  "Encoder2_Encode e bloom0 v output =
     (let md5 = md5_func e v;
          hash = (ucast (md5 0) OR push_bit 8 (ucast (md5 1)) :: ByteVector)
      in case hash2_loop e hash 0 bloom0 of
           Inl err \<Rightarrow> Inl err
         | Inr bloom \<Rightarrow> Inr (bloom, output))"

section \<open>The hash recurrence in the words of the specification\<close>

text \<open>
  The specification words the recurrence of the direct hash as \<open>h = h*33 + h + byte\<close>.
  This definition follows those words, for comparison with \<open>hash_step\<close>, which follows
  line 66 of the source.
\<close>

definition claimed_hash_step :: "cint \<Rightarrow> 8 word \<Rightarrow> cint" where
  "claimed_hash_step h c = h * 33 + h + scast c"

section \<open>Capabilities for concrete runs\<close>

text \<open>
  Two implementations of the capability interfaces whose draws are fixed bit patterns.
  Their state counts the draws made since the last \<open>seed\<close> (since the start, for the
  per-report capability).
\<close>

definition stub_det :: "ByteVector \<Rightarrow> ByteVector \<Rightarrow> nat DeterministicRandInterface" where
  "stub_det f u = \<lparr> seed = (\<lambda>v n. 0), f_bits = (\<lambda>n. (f, Suc n)), uniform = (\<lambda>n. (u, Suc n)) \<rparr>"

definition stub_rand :: "ByteVector \<Rightarrow> ByteVector \<Rightarrow> nat RandInterface" where
  "stub_rand p q = \<lparr> p_bits = (\<lambda>n. (p, Suc n)), q_bits = (\<lambda>n. (q, Suc n)) \<rparr>"

text \<open>A digest function whose digest has the two given bytes first and is zero after.\<close>

definition stub_md5 :: "8 word \<Rightarrow> 8 word \<Rightarrow> Md5Func" where
  "stub_md5 b0 b1 = (\<lambda>v i. if i = 0 then b0 else if i = 1 then b1 else 0)"

section \<open>The hash-width lookup\<close>

text \<open>
  C9. HashPartWidth is a total function of the width: the five supported widths 8, 16,
  32, 64 and 128 map to 3, 4, 5, 6 and 7, every other width maps to the error value -1,
  and whenever the result is not -1 it is the base-2 logarithm of the width.
\<close>

theorem HashPartWidth_table:
  "HashPartWidth 8 = 3 \<and> HashPartWidth 16 = 4 \<and> HashPartWidth 32 = 5 \<and>
   HashPartWidth 64 = 6 \<and> HashPartWidth 128 = 7 \<and>
   (\<forall>w. w \<notin> {8, 16, 32, 64, 128} \<longrightarrow> HashPartWidth w = - 1) \<and>
   (\<forall>w. HashPartWidth w \<noteq> - 1 \<longrightarrow> (2 :: cint) ^ unat (HashPartWidth w) = w)"
  by (simp add: HashPartWidth_def)

theorem HashPartWidth_table_witness:
  "(24 :: cint) \<notin> {8, 16, 32, 64, 128} \<and> HashPartWidth 24 = - 1 \<and>
   HashPartWidth 64 \<noteq> - 1 \<and> (2 :: cint) ^ unat (HashPartWidth 64) = 64"
proof -
  have unsupported: "(24 :: cint) \<notin> {8, 16, 32, 64, 128}" by simp
  have supported: "HashPartWidth 64 \<noteq> - 1" by (simp add: HashPartWidth_def)
  from HashPartWidth_table unsupported have "HashPartWidth 24 = - 1" by blast
  moreover from HashPartWidth_table supported
  have "(2 :: cint) ^ unat (HashPartWidth 64) = 64" by blast
  ultimately show ?thesis using unsupported supported by blast
qed


section \<open>Auxiliary facts\<close>

declare hash_loop.simps [simp del]
declare hash2_loop.simps [simp del]
declare copy_irr.simps [simp del]

lemma hash_loop_exit: "\<not> i < sint (num_hashes ps) \<Longrightarrow> hash_loop ps v i bloom = Inr bloom"
  by (simp add: hash_loop.simps)

lemma hash_loop_same_bit:
  "i < sint (num_hashes ps) \<Longrightarrow>
   hash_loop ps v i bloom =
     (case bit_to_set_of (hash_value v) (num_bits ps) of
        Inl e \<Rightarrow> Inl e
      | Inr b \<Rightarrow> Inr (bloom OR scast (shl_one b)))"
proof (induction ps v i bloom rule: hash_loop.induct)
  case (1 ps v i bloom)
  show ?case
  proof (cases "bit_to_set_of (hash_value v) (num_bits ps)")
    case (Inl e)
    with "1.prems" show ?thesis by (simp add: hash_loop.simps [of ps v i])
  next
    case b: (Inr b)
    have step: "hash_loop ps v i bloom = hash_loop ps v (i + 1) (bloom OR scast (shl_one b))"
      using b "1.prems" by (simp add: hash_loop.simps [of ps v i])
    show ?thesis
    proof (cases "i + 1 < sint (num_hashes ps)")
      case True
      from "1.IH" [OF "1.prems" refl b True] b step show ?thesis
        by (simp add: or.assoc)
    next
      case False
      with step b show ?thesis by (simp add: hash_loop_exit)
    qed
  qed
qed

text \<open>The hashing loop stops only where the division of line 68 traps.\<close>

lemma hash_loop_returns:
  assumes "0 < sint (num_hashes ps) \<longrightarrow> \<not> remainder_traps (hash_value v) (num_bits ps)"
  shows "\<exists>bloom. hash_loop ps v 0 bloom0 = Inr bloom"
proof (cases "0 < sint (num_hashes ps)")
  case True
  with assms have "\<not> remainder_traps (hash_value v) (num_bits ps)" by simp
  with hash_loop_same_bit [OF True, of v bloom0] show ?thesis
    by (simp add: bit_to_set_of_def)
next
  case False
  then show ?thesis by (simp add: hash_loop_exit)
qed

lemma hash_loop_traps:
  assumes "0 < sint (num_hashes ps)" and "remainder_traps (hash_value v) (num_bits ps)"
  shows "hash_loop ps v 0 bloom0 = Inl DivisionFault"
  using hash_loop_same_bit [OF assms(1), of v bloom0] assms(2)
  by (simp add: bit_to_set_of_def)

lemma select_bit:
  "bit ((f AND u) OR (b AND NOT u)) n = (if bit u n then bit f n else bit b n)"
  for f u b :: "'a::len word"
  by (auto simp add: bit_or_iff bit_and_iff bit_not_iff dest: bit_imp_le_length)

lemma select_bit_irr:
  "bit ((p AND NOT x) OR (q AND x)) n = (if bit x n then bit q n else bit p n)"
  for p q x :: "'a::len word"
  by (auto simp add: bit_or_iff bit_and_iff bit_not_iff dest: bit_imp_le_length)

lemma select_zero_ones: "(0 AND NOT x) OR (- 1 AND x) = x"
  for x :: "'a::len word"
  by simp

lemma select_ones_ones: "(- 1 AND NOT x) OR (- 1 AND x) = - 1"
  for x :: "'a::len word"
  by (simp add: bit.disj_cancel_left)

lemma Encoder_Encode_bits_run:
  assumes "hash_loop (params e) v 0 bloom0 = Inr bloom"
    and "f = fst (f_bits (det_rand e) (seed (det_rand e) v d))"
    and "d2 = snd (f_bits (det_rand e) (seed (det_rand e) v d))"
    and "prr = (f AND fst (uniform (det_rand e) d2)) OR (bloom AND NOT (fst (uniform (det_rand e) d2)))"
    and "r1 = snd (p_bits (rand e) r)"
  shows "Encoder_Encode_bits e bloom0 v d r =
     Inr \<lparr> l_bloom = bloom, l_f_bits = f, l_uniform = fst (uniform (det_rand e) d2),
           l_prr = prr, l_p_bits = fst (p_bits (rand e) r),
           l_q_bits = fst (q_bits (rand e) r1),
           l_irr = (fst (p_bits (rand e) r) AND NOT prr) OR (fst (q_bits (rand e) r1) AND prr),
           l_det = snd (uniform (det_rand e) d2), l_rand = snd (q_bits (rand e) r1) \<rparr>"
  using assms by (simp add: Encoder_Encode_bits_def Let_def case_prod_beta)

lemma shl_one_mod: "shl_one n = push_bit (unat n mod 32) 1"
proof -
  have "(31 :: 32 word) = mask 5"
    by (simp add: mask_eq_exp_minus_1)
  then have "n AND 31 = take_bit 5 n"
    by (simp only: take_bit_eq_mask)
  then have "unat (n AND 31) = unat n mod 32"
    by (simp add: take_bit_eq_mod unat_mod)
  then show ?thesis by (simp add: shl_one_def)
qed

lemma positive_width_no_trap: "0 < sint nb \<Longrightarrow> \<not> remainder_traps h nb"
  by (auto simp add: remainder_traps_def)

lemma Encoder_Encode_bits_traps:
  assumes "0 < sint (num_hashes (params e))"
    and "remainder_traps (hash_value v) (num_bits (params e))"
  shows "Encoder_Encode_bits e bloom0 v d r = Inl DivisionFault"
  by (simp add: Encoder_Encode_bits_def hash_loop_traps [OF assms])

lemma hash_loop_abcdef8:
  "hash_loop \<lparr>num_bits = 8, num_hashes = 1\<rparr> [0x61, 0x62, 0x63, 0x64, 0x65, 0x66] 0 0
     = Inr 0x4000000"
  by (simp add: hash_loop.simps hash_value_def hash_step_def bit_to_set_of_def
      remainder_traps_def shl_one_def)

lemma hash_loop_x8: "hash_loop \<lparr>num_bits = 8, num_hashes = 1\<rparr> [0x78] 0 0 = Inr 0x20"
  by (simp add: hash_loop.simps hash_value_def hash_step_def bit_to_set_of_def remainder_traps_def shl_one_def)

section \<open>The permanent randomized response\<close>

text \<open>
  C1. \<open>Encoder::Encode\<close> reaches line 100 for every value, unless the division of line
  68 traps (which no positive \<open>num_bits\<close> allows), with: \<open>bloom\<close> the result of the
  hashing loop, \<open>f_bits\<close> the first draw from the deterministic capability after it was
  reseeded with the value, \<open>uniform\<close> the draw after that, and
  \<open>prr = (f_bits & uniform) | (bloom & ~uniform)\<close>; that is, at every bit position the
  PRR bit is the \<open>f_bits\<close> bit where the \<open>uniform\<close> bit is 1 and the \<open>bloom\<close> bit where it
  is 0.
\<close>

theorem Encode_prr:
  assumes "0 < sint (num_hashes (params e)) \<longrightarrow>
     \<not> remainder_traps (hash_value v) (num_bits (params e))"
  shows "\<exists>l. Encoder_Encode_bits e bloom0 v d r = Inr l \<and>
     hash_loop (params e) v 0 bloom0 = Inr (l_bloom l) \<and>
     l_f_bits l = fst (f_bits (det_rand e) (seed (det_rand e) v d)) \<and>
     l_uniform l =
       fst (uniform (det_rand e) (snd (f_bits (det_rand e) (seed (det_rand e) v d)))) \<and>
     l_prr l = (l_f_bits l AND l_uniform l) OR (l_bloom l AND NOT (l_uniform l)) \<and>
     (\<forall>n. bit (l_prr l) n =
        (if bit (l_uniform l) n then bit (l_f_bits l) n else bit (l_bloom l) n))"
proof -
  from hash_loop_returns [OF assms] obtain bloom
    where hash: "hash_loop (params e) v 0 bloom0 = Inr bloom" ..
  show ?thesis
    by (rule exI, intro conjI, rule Encoder_Encode_bits_run [OF hash refl refl refl refl])
      (simp_all only: locals.simps select_bit simp_thms hash)
qed

theorem Encode_prr_witness:
  "(0 :: int) < sint (num_hashes (params (Encoder_Encoder [] 0 \<lparr>num_bits = 8, num_hashes = 1\<rparr>
       (stub_det 0x05 0x0F) (stub_rand 0 (- 1))))) \<and>
   \<not> remainder_traps (hash_value [0x61, 0x62, 0x63, 0x64, 0x65, 0x66])
      (num_bits (params (Encoder_Encoder [] 0 \<lparr>num_bits = 8, num_hashes = 1\<rparr>
      (stub_det 0x05 0x0F) (stub_rand 0 (- 1))))) \<and>
   (\<exists>l. Encoder_Encode_bits (Encoder_Encoder [] 0 \<lparr>num_bits = 8, num_hashes = 1\<rparr>
       (stub_det 0x05 0x0F) (stub_rand 0 (- 1))) 0 [0x61, 0x62, 0x63, 0x64, 0x65, 0x66]
       (7 :: nat) (0 :: nat) = Inr l \<and>
     l_bloom l = 0x4000000 \<and> l_f_bits l = 0x05 \<and> l_uniform l = 0x0F \<and>
     l_prr l = 0x4000005)"
proof -
  let ?e = "Encoder_Encoder [] 0 \<lparr>num_bits = 8, num_hashes = 1\<rparr>
       (stub_det 0x05 0x0F) (stub_rand 0 (- 1)) :: (nat, nat) Encoder"
  let ?v = "[0x61, 0x62, 0x63, 0x64, 0x65, 0x66] :: cxx_string"
  have sel: "params ?e = \<lparr>num_bits = 8, num_hashes = 1\<rparr>"
    by (simp add: Encoder_Encoder_def Let_def)
  have runs: "(0 :: int) < sint (num_hashes (params ?e))"
    by (simp add: sel)
  have no_trap: "0 < sint (num_hashes (params ?e)) \<longrightarrow>
     \<not> remainder_traps (hash_value ?v) (num_bits (params ?e))"
    by (simp add: sel remainder_traps_def)
  from Encode_prr [OF no_trap, of 0 7 0] obtain l where
    "Encoder_Encode_bits ?e 0 ?v 7 0 = Inr l"
    "hash_loop (params ?e) ?v 0 0 = Inr (l_bloom l)"
    "l_f_bits l = fst (f_bits (det_rand ?e) (seed (det_rand ?e) ?v 7))"
    "l_uniform l =
       fst (uniform (det_rand ?e) (snd (f_bits (det_rand ?e) (seed (det_rand ?e) ?v 7))))"
    "l_prr l = (l_f_bits l AND l_uniform l) OR (l_bloom l AND NOT (l_uniform l))"
    by blast
  then have "Encoder_Encode_bits ?e 0 ?v 7 0 = Inr l \<and>
     l_bloom l = 0x4000000 \<and> l_f_bits l = 0x05 \<and> l_uniform l = 0x0F \<and> l_prr l = 0x4000005"
    by (simp add: sel hash_loop_abcdef8) (simp add: Encoder_Encoder_def Let_def stub_det_def)
  then have "\<exists>l. Encoder_Encode_bits ?e 0 ?v 7 0 = Inr l \<and>
     l_bloom l = 0x4000000 \<and> l_f_bits l = 0x05 \<and> l_uniform l = 0x0F \<and> l_prr l = 0x4000005"
    by (rule exI [of _ l])
  moreover from no_trap runs
  have "\<not> remainder_traps (hash_value ?v) (num_bits (params ?e))" by blast
  ultimately show ?thesis using runs by (intro conjI)
qed

section \<open>The instantaneous randomized response\<close>

text \<open>
  C2. \<open>Encoder::Encode\<close> reaches line 100 for every value, unless the division of line
  68 traps (which no positive \<open>num_bits\<close> allows), with: \<open>p_bits\<close> and \<open>q_bits\<close> the next
  two draws from the per-report capability, whatever they are, and
  \<open>irr = (p_bits & ~prr) | (q_bits & prr)\<close>: at every bit position the IRR bit is the
  \<open>q_bits\<close> bit where the PRR bit is 1 and the \<open>p_bits\<close> bit where it is 0. If \<open>p_bits\<close> is
  all zeros and \<open>q_bits\<close> all ones, the IRR is the PRR; if both are all ones, the IRR is
  all ones.
\<close>

theorem Encode_irr:
  assumes "0 < sint (num_hashes (params e)) \<longrightarrow>
     \<not> remainder_traps (hash_value v) (num_bits (params e))"
  shows "\<exists>l. Encoder_Encode_bits e bloom0 v d r = Inr l \<and>
     l_p_bits l = fst (p_bits (rand e) r) \<and>
     l_q_bits l = fst (q_bits (rand e) (snd (p_bits (rand e) r))) \<and>
     l_irr l = (l_p_bits l AND NOT (l_prr l)) OR (l_q_bits l AND l_prr l) \<and>
     (\<forall>n. bit (l_irr l) n =
        (if bit (l_prr l) n then bit (l_q_bits l) n else bit (l_p_bits l) n)) \<and>
     (l_p_bits l = 0 \<and> l_q_bits l = - 1 \<longrightarrow> l_irr l = l_prr l) \<and>
     (l_p_bits l = - 1 \<and> l_q_bits l = - 1 \<longrightarrow> l_irr l = - 1)"
proof -
  from hash_loop_returns [OF assms] obtain bloom
    where hash: "hash_loop (params e) v 0 bloom0 = Inr bloom" ..
  show ?thesis
    by (rule exI, intro conjI impI, rule Encoder_Encode_bits_run [OF hash refl refl refl refl])
      (simp_all only: locals.simps select_zero_ones select_ones_ones select_bit_irr simp_thms)
qed

theorem Encode_irr_witness:
  "(0 :: int) < sint (num_hashes (params (Encoder_Encoder [] 0 \<lparr>num_bits = 8, num_hashes = 1\<rparr>
       (stub_det 0x05 0x0F) (stub_rand 0 (- 1))))) \<and>
   \<not> remainder_traps (hash_value [0x61, 0x62, 0x63, 0x64, 0x65, 0x66])
      (num_bits (params (Encoder_Encoder [] 0 \<lparr>num_bits = 8, num_hashes = 1\<rparr>
      (stub_det 0x05 0x0F) (stub_rand 0 (- 1))))) \<and>
   (\<exists>l. Encoder_Encode_bits (Encoder_Encoder [] 0 \<lparr>num_bits = 8, num_hashes = 1\<rparr>
       (stub_det 0x05 0x0F) (stub_rand 0 (- 1))) 0 [0x61, 0x62, 0x63, 0x64, 0x65, 0x66]
       (7 :: nat) (0 :: nat) = Inr l \<and>
     l_p_bits l = 0 \<and> l_q_bits l = - 1 \<and> l_irr l = l_prr l) \<and>
   (0 :: int) < sint (num_hashes (params (Encoder_Encoder [] 0 \<lparr>num_bits = 8, num_hashes = 1\<rparr>
       (stub_det 0x05 0x0F) (stub_rand (- 1) (- 1))))) \<and>
   \<not> remainder_traps (hash_value [0x61, 0x62, 0x63, 0x64, 0x65, 0x66])
      (num_bits (params (Encoder_Encoder [] 0 \<lparr>num_bits = 8, num_hashes = 1\<rparr>
      (stub_det 0x05 0x0F) (stub_rand (- 1) (- 1))))) \<and>
   (\<exists>l. Encoder_Encode_bits (Encoder_Encoder [] 0 \<lparr>num_bits = 8, num_hashes = 1\<rparr>
       (stub_det 0x05 0x0F) (stub_rand (- 1) (- 1))) 0 [0x61, 0x62, 0x63, 0x64, 0x65, 0x66]
       (7 :: nat) (0 :: nat) = Inr l \<and>
     l_p_bits l = - 1 \<and> l_q_bits l = - 1 \<and> l_irr l = - 1)"
proof -
  let ?e = "Encoder_Encoder [] 0 \<lparr>num_bits = 8, num_hashes = 1\<rparr>
       (stub_det 0x05 0x0F) (stub_rand 0 (- 1)) :: (nat, nat) Encoder"
  let ?e' = "Encoder_Encoder [] 0 \<lparr>num_bits = 8, num_hashes = 1\<rparr>
       (stub_det 0x05 0x0F) (stub_rand (- 1) (- 1)) :: (nat, nat) Encoder"
  let ?v = "[0x61, 0x62, 0x63, 0x64, 0x65, 0x66] :: cxx_string"
  have runs: "(0 :: int) < sint (num_hashes (params ?e))"
    by (simp add: Encoder_Encoder_def Let_def)
  have no_trap: "0 < sint (num_hashes (params ?e)) \<longrightarrow>
     \<not> remainder_traps (hash_value ?v) (num_bits (params ?e))"
    by (simp add: Encoder_Encoder_def Let_def remainder_traps_def)
  have no_trap': "0 < sint (num_hashes (params ?e')) \<longrightarrow>
     \<not> remainder_traps (hash_value ?v) (num_bits (params ?e'))"
    by (simp add: Encoder_Encoder_def Let_def remainder_traps_def)
  have p: "fst (p_bits (rand ?e) 0) = 0"
    and q: "fst (q_bits (rand ?e) (snd (p_bits (rand ?e) 0))) = - 1"
    and p': "fst (p_bits (rand ?e') 0) = - 1"
    and q': "fst (q_bits (rand ?e') (snd (p_bits (rand ?e') 0))) = - 1"
    by (simp_all add: Encoder_Encoder_def Let_def stub_rand_def)
  from Encode_irr [OF no_trap, of 0 7 0] p q
  have first: "\<exists>l. Encoder_Encode_bits ?e 0 ?v 7 0 = Inr l \<and>
     l_p_bits l = 0 \<and> l_q_bits l = - 1 \<and> l_irr l = l_prr l"
    by metis
  from Encode_irr [OF no_trap', of 0 7 0] p' q'
  have second: "\<exists>l. Encoder_Encode_bits ?e' 0 ?v 7 0 = Inr l \<and>
     l_p_bits l = - 1 \<and> l_q_bits l = - 1 \<and> l_irr l = - 1"
    by metis
  have runs': "(0 :: int) < sint (num_hashes (params ?e'))"
    by (simp add: Encoder_Encoder_def Let_def)
  from no_trap runs
  have nt: "\<not> remainder_traps (hash_value ?v) (num_bits (params ?e))" by blast
  from no_trap' runs'
  have nt': "\<not> remainder_traps (hash_value ?v) (num_bits (params ?e'))" by blast
  from runs nt first runs' nt' second show ?thesis by (intro conjI)
qed

section \<open>The libc-based capability\<close>

text \<open>
  C10. The three operations of \<open>LibcRand\<close> return the all-zero pattern. Hence, when an
  \<open>Encoder\<close> draws its per-report noise from \<open>LibcRand\<close>, \<open>Encode\<close> reaches line 100 for
  every value, unless the division of line 68 traps (which no positive \<open>num_bits\<close>
  allows), with \<open>p_bits\<close>, \<open>q_bits\<close> and the final \<open>irr\<close> all zero, whatever the value, the
  deterministic capability and the PRR are.
\<close>

theorem LibcRand_all_zero:
  assumes "rand e = LibcRand"
    and "0 < sint (num_hashes (params e)) \<longrightarrow>
     \<not> remainder_traps (hash_value v) (num_bits (params e))"
  shows "LibcRand_f_bits = 0 \<and> LibcRand_p_bits = 0 \<and> LibcRand_q_bits = 0 \<and>
     (\<exists>l. Encoder_Encode_bits e bloom0 v d r = Inr l \<and>
        l_p_bits l = 0 \<and> l_q_bits l = 0 \<and> l_irr l = 0)"
proof -
  from hash_loop_returns [OF assms(2)] obtain bloom
    where hash: "hash_loop (params e) v 0 bloom0 = Inr bloom" ..
  have draws: "fst (p_bits (rand e) r) = 0" "fst (q_bits (rand e) (snd (p_bits (rand e) r))) = 0"
    using assms(1) by (simp_all add: LibcRand_def LibcRand_p_bits_def LibcRand_q_bits_def)
  have "\<exists>l. Encoder_Encode_bits e bloom0 v d r = Inr l \<and>
        l_p_bits l = 0 \<and> l_q_bits l = 0 \<and> l_irr l = 0"
    by (rule exI, intro conjI, rule Encoder_Encode_bits_run [OF hash refl refl refl refl])
      (simp_all add: draws)
  then show ?thesis
    by (simp add: LibcRand_f_bits_def LibcRand_p_bits_def LibcRand_q_bits_def)
qed

theorem LibcRand_all_zero_witness:
  "rand (Encoder_Encoder [] 0 \<lparr>num_bits = 8, num_hashes = 1\<rparr> (stub_det 0x05 0x0F)
       (LibcRand :: unit RandInterface)) = LibcRand \<and>
   (0 :: int) < sint (num_hashes (params (Encoder_Encoder [] 0 \<lparr>num_bits = 8, num_hashes = 1\<rparr>
       (stub_det 0x05 0x0F) (LibcRand :: unit RandInterface)))) \<and>
   \<not> remainder_traps (hash_value [0x61, 0x62, 0x63, 0x64, 0x65, 0x66])
      (num_bits (params (Encoder_Encoder [] 0 \<lparr>num_bits = 8, num_hashes = 1\<rparr>
      (stub_det 0x05 0x0F) (LibcRand :: unit RandInterface)))) \<and>
   (\<exists>l. Encoder_Encode_bits (Encoder_Encoder [] 0 \<lparr>num_bits = 8, num_hashes = 1\<rparr>
       (stub_det 0x05 0x0F) LibcRand) 0 [0x61, 0x62, 0x63, 0x64, 0x65, 0x66] (7 :: nat) ()
       = Inr l \<and> l_irr l = 0)"
proof -
  let ?e = "Encoder_Encoder [] 0 \<lparr>num_bits = 8, num_hashes = 1\<rparr>
       (stub_det 0x05 0x0F) LibcRand :: (nat, unit) Encoder"
  let ?v = "[0x61, 0x62, 0x63, 0x64, 0x65, 0x66] :: cxx_string"
  have cap: "rand ?e = LibcRand"
    by (simp add: Encoder_Encoder_def Let_def)
  have runs: "(0 :: int) < sint (num_hashes (params ?e))"
    by (simp add: Encoder_Encoder_def Let_def)
  have no_trap: "0 < sint (num_hashes (params ?e)) \<longrightarrow>
     \<not> remainder_traps (hash_value ?v) (num_bits (params ?e))"
    by (simp add: Encoder_Encoder_def Let_def remainder_traps_def)
  from LibcRand_all_zero [OF cap no_trap, of 0 7 "()"]
  have "\<exists>l. Encoder_Encode_bits ?e 0 ?v 7 () = Inr l \<and> l_irr l = 0"
    by blast
  moreover from no_trap runs
  have "\<not> remainder_traps (hash_value ?v) (num_bits (params ?e))" by blast
  ultimately show ?thesis using cap runs by (intro conjI)
qed

section \<open>Construction of the digest-based encoder\<close>

lemma Encoder2_IsValid_iff:
  "Encoder2_IsValid (Encoder2_Encoder2 name c ps md5) = (sint (num_bits ps) smod 8 = 0)"
  by (simp add: Encoder2_IsValid_def Encoder2_Encoder2_def Let_def)

text \<open>
  C3. The constructor of \<open>Encoder2\<close> stores the result of \<open>HashPartWidth\<close> and never
  tests it: validity depends on \<open>num_bits % 8\<close> alone. For \<open>num_bits = 24\<close> the lookup
  returns the error value -1, which is stored as \<open>hash_part_width_\<close>, and the encoder is
  valid, where the claim requires it to be invalid.
\<close>

theorem Encoder2_width_24_valid:
  "Encoder2_IsValid (Encoder2_Encoder2 [] 0 \<lparr>num_bits = 24, num_hashes = 1\<rparr> (stub_md5 8 0)) \<and>
   HashPartWidth 24 = - 1 \<and>
   hash_part_width (Encoder2_Encoder2 [] 0 \<lparr>num_bits = 24, num_hashes = 1\<rparr> (stub_md5 8 0)) = - 1"
  by (simp add: Encoder2_IsValid_def Encoder2_Encoder2_def Let_def HashPartWidth_def)

section \<open>Hashing of the digest-based encoder\<close>

lemma hash2_loop_exit:
  "\<not> i < sint (num_hashes (e2_params e)) \<Longrightarrow> hash2_loop e hash i bloom = Inr bloom"
  by (simp add: hash2_loop.simps)

lemma hash2_loop_same_slice:
  "i < sint (num_hashes (e2_params e)) \<Longrightarrow>
   hash2_loop e hash i bloom =
     (if num_bits (e2_params e) = 0 then Inl DivisionFault
      else Inr (bloom OR scast (shl_one (ucast (hash mod scast (num_bits (e2_params e)))))))"
proof (induction e hash i bloom rule: hash2_loop.induct)
  case (1 e hash i bloom)
  let ?m = "scast (shl_one (ucast (hash mod scast (num_bits (e2_params e))))) :: ByteVector"
  show ?case
  proof (cases "num_bits (e2_params e) = 0")
    case True
    with "1.prems" show ?thesis by (simp add: hash2_loop.simps [of e hash i])
  next
    case width: False
    have step: "hash2_loop e hash i bloom = hash2_loop e hash (i + 1) (bloom OR ?m)"
      using width "1.prems" by (simp add: hash2_loop.simps [of e hash i] Let_def)
    show ?thesis
    proof (cases "i + 1 < sint (num_hashes (e2_params e))")
      case True
      from "1.IH" [OF "1.prems" width refl refl refl True] width step show ?thesis
        by (simp add: or.assoc)
    next
      case False
      with step width show ?thesis by (simp add: hash2_loop_exit)
    qed
  qed
qed

lemma hash2_loop_8_2:
  "hash2_loop (Encoder2_Encoder2 [] 0 \<lparr>num_bits = 8, num_hashes = 2\<rparr> (stub_md5 8 0)) 8 0 0
     = Inr 1"
  by (simp add: hash2_loop.simps Encoder2_Encoder2_def Let_def HashPartWidth_def shl_one_def
      shr_hash_def)

text \<open>
  C5. A run of \<open>Encoder2::Encode\<close> with \<open>num_bits = 8\<close>, two hashes and a digest whose
  first two bytes are 8 and 0, so that \<open>hash = 8\<close> and \<open>hash_part_width_ = 3\<close>. The claim
  has index 0 set bit \<open>(8 >> 0) mod 8 = 0\<close> and index 1 set bit \<open>(8 >> 3) mod 8 = 1\<close>.
  The code leaves \<open>hash\<close> unshifted, both indices set bit 0, and bit 1 of the resulting
  \<open>bloom\<close> is clear (the run starts from \<open>bloom = 0\<close>).
\<close>

theorem Encoder2_Encode_second_slice:
  "Encoder2_Encode (Encoder2_Encoder2 [] 0 \<lparr>num_bits = 8, num_hashes = 2\<rparr> (stub_md5 8 0))
     0 [0x78] [[]] = Inr (1, [[]]) \<and>
   hash_part_width (Encoder2_Encoder2 [] 0 \<lparr>num_bits = 8, num_hashes = 2\<rparr> (stub_md5 8 0)) = 3 \<and>
   drop_bit (0 * 3) (8 :: ByteVector) mod 8 = 0 \<and>
   drop_bit (1 * 3) (8 :: ByteVector) mod 8 = 1 \<and>
   \<not> bit (1 :: ByteVector) 1"
proof -
  let ?e = "Encoder2_Encoder2 [] 0 \<lparr>num_bits = 8, num_hashes = 2\<rparr> (stub_md5 8 0)"
  have sel: "md5_func ?e = stub_md5 8 0"
    by (simp add: Encoder2_Encoder2_def Let_def)
  have hash: "(ucast (stub_md5 8 0 [0x78] 0) OR push_bit 8 (ucast (stub_md5 8 0 [0x78] 1))
     :: ByteVector) = 8"
    by (simp add: stub_md5_def)
  have "Encoder2_Encode ?e 0 [0x78] [[]] = Inr (1, [[]])"
    unfolding Encoder2_Encode_def Let_def sel hash hash2_loop_8_2 by simp
  then show ?thesis
    by (simp add: Encoder2_Encoder2_def Let_def HashPartWidth_def drop_bit_eq_div)
qed

section \<open>Copying the report into the output string\<close>

lemma hash_loop_x16: "hash_loop \<lparr>num_bits = 16, num_hashes = 1\<rparr> [0x78] 0 0 = Inr 0x2000"
  by (simp add: hash_loop.simps hash_value_def hash_step_def bit_to_set_of_def remainder_traps_def shl_one_def)

lemma copy_irr_exit: "\<not> i < n \<Longrightarrow> copy_irr i n irr output = Inr output"
  by (simp add: copy_irr.simps)

lemma low_byte: "(ucast (w AND 0xFF) :: 8 word) = ucast w"
  for w :: ByteVector
proof -
  have "(0xFF :: ByteVector) = mask 8"
    by (simp add: mask_eq_exp_minus_1)
  then show ?thesis
    by (simp add: bit_eq_iff bit_simps) 
qed

lemma copy_irr_strings:
  "copy_irr i n irr out = Inr out' \<Longrightarrow> 0 \<le> i \<Longrightarrow>
   length out' = length out \<and>
   (\<forall>j. j < nat i \<longrightarrow> out' ! j = out ! j) \<and>
   (\<forall>k. i \<le> k \<and> k < n \<longrightarrow> out' ! nat k = [ucast (drop_bit (8 * nat (k - i)) irr)])"
proof (induction i n irr out rule: copy_irr.induct)
  case (1 i n irr out)
  show ?case
  proof (cases "i < n")
    case False
    with "1.prems" show ?thesis by (auto simp add: copy_irr_exit)
  next
    case True
    with "1.prems" have inside: "nat i < length out"
      by (simp add: copy_irr.simps [of i n] split: if_splits)
    let ?out = "out[nat i := [ucast (irr AND 0xFF)]]"
    from True inside "1.prems"
    have rest: "copy_irr (i + 1) n (drop_bit 8 irr) ?out = Inr out'"
      by (simp add: copy_irr.simps [of i n])
    from "1.prems" inside have "0 \<le> i \<and> nat i < length out" by simp
    from "1.IH" [OF True this rest] "1.prems"
    have len: "length out' = length out"
      and below: "\<forall>j. j < nat (i + 1) \<longrightarrow> out' ! j = ?out ! j"
      and above: "\<forall>k. i + 1 \<le> k \<and> k < n \<longrightarrow>
         out' ! nat k = [ucast (drop_bit (8 * nat (k - (i + 1))) (drop_bit 8 irr))]"
      by simp_all
    have "out' ! j = out ! j" if "j < nat i" for j
      using below that by simp
    moreover have "out' ! nat k = [ucast (drop_bit (8 * nat (k - i)) irr)]"
      if k: "i \<le> k \<and> k < n" for k
    proof (cases "k = i")
      case True
      have "nat i < nat (i + 1)" using "1.prems" by simp
      with below have "out' ! nat i = ?out ! nat i" by blast
      with inside True show ?thesis by (simp add: low_byte)
    next
      case False
      with k have k': "i + 1 \<le> k \<and> k < n" by simp
      then have "nat (k - i) = Suc (nat (k - (i + 1)))" by linarith
      then have "8 * nat (k - (i + 1)) + 8 = 8 * nat (k - i)" by simp
      then have "drop_bit (8 * nat (k - (i + 1))) (drop_bit 8 irr) = drop_bit (8 * nat (k - i)) irr"
        by (simp add: drop_bit_drop_bit add.commute)
      with above k' show ?thesis by simp
    qed
    ultimately show ?thesis using len by blast
  qed
qed

lemma Encoder_Encode_strings:
  assumes "Encoder_Encode e bloom0 v out d r = Inr (out', d', r')"
  shows "\<exists>l. Encoder_Encode_bits e bloom0 v d r = Inr l \<and>
     length out' = length out \<and>
     (\<forall>k. 0 \<le> k \<and> k < sint (num_bytes e) \<longrightarrow>
        out' ! nat k = [ucast (drop_bit (8 * nat k) (l_irr l))])"
proof -
  from assms obtain l where bits: "Encoder_Encode_bits e bloom0 v d r = Inr l"
    and w: "write_output (num_bytes e) (l_irr l) out = Inr out'"
    by (auto simp add: Encoder_Encode_def split: sum.splits)
  from w have "copy_irr 0 (sint (num_bytes e)) (l_irr l) out = Inr out'"
    by (simp add: write_output_def split: if_splits)
  from copy_irr_strings [OF this] bits show ?thesis by simp
qed

text \<open>
  C7. A run of \<open>Encoder::Encode\<close> with \<open>num_bits = 16\<close>, so \<open>num_bytes_ = 2\<close>, whose
  IRR is \<open>0x2034\<close>. When \<open>output\<close> points to a single string, the first iteration makes
  that string the one-byte string \<open>0x34\<close> and the second writes \<open>output[1]\<close>, a string
  object that is not there. When two string objects lie behind \<open>output\<close>, each ends
  up holding one byte. In neither case does the caller's string hold the two bytes
  \<open>0x34, 0x20\<close> that the claim describes.
\<close>

theorem Encoder_Encode_two_bytes:
  "Encoder_Encode (Encoder_Encoder [] 0 \<lparr>num_bits = 16, num_hashes = 1\<rparr>
       (stub_det 0x34 0xFF) (stub_rand 0 (- 1))) 0 [0x78] [[]] (7 :: nat) (0 :: nat)
     = Inl OutOfBounds \<and>
   Encoder_Encode (Encoder_Encoder [] 0 \<lparr>num_bits = 16, num_hashes = 1\<rparr>
       (stub_det 0x34 0xFF) (stub_rand 0 (- 1))) 0 [0x78] [[], []] (7 :: nat) (0 :: nat)
     = Inr ([[0x34], [0x20]], 2, 2)"
proof -
  let ?e = "Encoder_Encoder [] 0 \<lparr>num_bits = 16, num_hashes = 1\<rparr>
       (stub_det 0x34 0xFF) (stub_rand 0 (- 1)) :: (nat, nat) Encoder"
  have hash: "hash_loop (params ?e) [0x78] 0 0 = Inr 0x2000"
    by (simp add: Encoder_Encoder_def Let_def hash_loop_x16)
  have bits: "Encoder_Encode_bits ?e 0 [0x78] 7 0 =
     Inr \<lparr> l_bloom = 0x2000, l_f_bits = 0x34, l_uniform = 0xFF, l_prr = 0x2034,
           l_p_bits = 0, l_q_bits = - 1, l_irr = 0x2034, l_det = 2, l_rand = 2 \<rparr>"
    by (simp add: Encoder_Encode_bits_run [OF hash refl refl refl refl])
      (simp add: Encoder_Encoder_def Let_def stub_det_def stub_rand_def)
  have n: "num_bytes ?e = 2"
    by (simp add: Encoder_Encoder_def Let_def)
  have one: "write_output 2 0x2034 [[]] = Inl OutOfBounds"
    by (simp add: write_output_def copy_irr.simps)
  have two: "write_output 2 0x2034 [[], []] = Inr [[0x34], [0x20]]"
    by (simp add: write_output_def copy_irr.simps)
  show ?thesis
    by (simp add: Encoder_Encode_def bits n one two)
qed

section \<open>Randomization in the digest-based encoder\<close>

lemma hash2_loop_8_1:
  "hash2_loop (Encoder2_Encoder2 [] 0 \<lparr>num_bits = 8, num_hashes = 1\<rparr> (stub_md5 8 0)) 8 0 0
     = Inr 1"
  by (simp add: hash2_loop.simps Encoder2_Encoder2_def Let_def HashPartWidth_def shl_one_def
      shr_hash_def)

text \<open>
  Against C6 as stated: with \<open>num_bits = 8\<close> and the same value, \<open>Encoder::Encode\<close>
  leaves the report byte \<open>0x25\<close> in the caller's string, and \<open>Encoder2::Encode\<close> leaves
  the caller's string empty.
\<close>

theorem Encoder2_Encode_no_report:
  "Encoder2_Encode (Encoder2_Encoder2 [] 0 \<lparr>num_bits = 8, num_hashes = 1\<rparr> (stub_md5 8 0))
     0 [0x78] [[]] = Inr (1, [[]]) \<and>
   Encoder_Encode (Encoder_Encoder [] 0 \<lparr>num_bits = 8, num_hashes = 1\<rparr>
       (stub_det 0x05 0x0F) (stub_rand 0 (- 1))) 0 [0x78] [[]] (7 :: nat) (0 :: nat)
     = Inr ([[0x25]], 2, 2)"
proof -
  let ?e2 = "Encoder2_Encoder2 [] 0 \<lparr>num_bits = 8, num_hashes = 1\<rparr> (stub_md5 8 0)"
  let ?e = "Encoder_Encoder [] 0 \<lparr>num_bits = 8, num_hashes = 1\<rparr>
       (stub_det 0x05 0x0F) (stub_rand 0 (- 1)) :: (nat, nat) Encoder"
  have sel: "md5_func ?e2 = stub_md5 8 0"
    by (simp add: Encoder2_Encoder2_def Let_def)
  have hash2: "(ucast (stub_md5 8 0 [0x78] 0) OR push_bit 8 (ucast (stub_md5 8 0 [0x78] 1))
     :: ByteVector) = 8"
    by (simp add: stub_md5_def)
  have b: "Encoder2_Encode ?e2 0 [0x78] [[]] = Inr (1, [[]])"
    unfolding Encoder2_Encode_def Let_def sel hash2 hash2_loop_8_1 by simp
  have hash: "hash_loop (params ?e) [0x78] 0 0 = Inr 0x20"
    by (simp add: Encoder_Encoder_def Let_def hash_loop_x8)
  have bits: "Encoder_Encode_bits ?e 0 [0x78] 7 0 =
     Inr \<lparr> l_bloom = 0x20, l_f_bits = 0x05, l_uniform = 0x0F, l_prr = 0x25,
           l_p_bits = 0, l_q_bits = - 1, l_irr = 0x25, l_det = 2, l_rand = 2 \<rparr>"
    by (simp add: Encoder_Encode_bits_run [OF hash refl refl refl refl])
      (simp add: Encoder_Encoder_def Let_def stub_det_def stub_rand_def)
  have n: "num_bytes ?e = 1"
    by (simp add: Encoder_Encoder_def Let_def)
  have w: "write_output 1 0x25 [[]] = Inr [[0x25]]"
    by (simp add: write_output_def copy_irr.simps)
  have a: "Encoder_Encode ?e 0 [0x78] [[]] 7 0 = Inr ([[0x25]], 2, 2)"
    by (simp add: Encoder_Encode_def bits n w)
  from b a show ?thesis by (rule conjI)
qed

text \<open>
  C6, amended. \<open>Encoder2::Encode\<close> consists of the hashing stage only: when it completes,
  the strings behind \<open>output\<close> are as they were before the call, and what was computed
  is the \<open>bloom\<close> of the hashing loop over \<open>hash = md5[0] | md5[1] << 8\<close>. No
  randomness capability takes part (the function has none among its arguments).
\<close>

theorem Encoder2_Encode_hashing_only:
  assumes "Encoder2_Encode e bloom0 v out = Inr (bloom, out')"
  shows "out' = out \<and>
     hash2_loop e (ucast (md5_func e v 0) OR push_bit 8 (ucast (md5_func e v 1))) 0 bloom0
       = Inr bloom"
  using assms by (simp add: Encoder2_Encode_def Let_def split: sum.splits)

theorem Encoder2_Encode_hashing_only_witness:
  "Encoder2_Encode (Encoder2_Encoder2 [] 0 \<lparr>num_bits = 8, num_hashes = 1\<rparr> (stub_md5 8 0))
     0 [0x78] [[0x55]] = Inr (1, [[0x55]]) \<and>
   hash2_loop (Encoder2_Encoder2 [] 0 \<lparr>num_bits = 8, num_hashes = 1\<rparr> (stub_md5 8 0))
     8 0 0 = Inr 1"
proof -
  let ?e2 = "Encoder2_Encoder2 [] 0 \<lparr>num_bits = 8, num_hashes = 1\<rparr> (stub_md5 8 0)"
  have sel: "md5_func ?e2 = stub_md5 8 0"
    by (simp add: Encoder2_Encoder2_def Let_def)
  have hash2: "(ucast (stub_md5 8 0 [0x78] 0) OR push_bit 8 (ucast (stub_md5 8 0 [0x78] 1))
     :: ByteVector) = 8"
    by (simp add: stub_md5_def)
  have run: "Encoder2_Encode ?e2 0 [0x78] [[0x55]] = Inr (1, [[0x55]])"
    unfolding Encoder2_Encode_def Let_def sel hash2 hash2_loop_8_1 by simp
  from Encoder2_Encode_hashing_only [OF run]
  have "hash2_loop ?e2 (ucast (md5_func ?e2 [0x78] 0) OR push_bit 8 (ucast (md5_func ?e2 [0x78] 1)))
     0 0 = Inr 1"
    by blast
  then have "hash2_loop ?e2 8 0 0 = Inr 1"
    unfolding sel hash2 .
  with run show ?thesis by (rule conjI)
qed

section \<open>Encoding with an invalid encoder\<close>

lemma hash_loop_x12: "hash_loop \<lparr>num_bits = 12, num_hashes = 1\<rparr> [0x78] 0 0 = Inr 0x200"
  by (simp add: hash_loop.simps hash_value_def hash_step_def bit_to_set_of_def remainder_traps_def shl_one_def)

lemma Encoder_invalid_num_bytes:
  "\<not> Encoder_IsValid (Encoder_Encoder name c ps dr rr) \<Longrightarrow>
   num_bytes (Encoder_Encoder name c ps dr rr) = 0"
  by (simp add: Encoder_IsValid_def Encoder_Encoder_def Let_def split: if_splits)

text \<open>
  Against C8 as stated: an \<open>Encoder\<close> constructed with \<open>num_bits = 12\<close> is invalid, and
  \<open>Encode\<close> on it hashes the value into \<open>bloom\<close>, reseeds the deterministic capability
  and draws twice from it, and draws twice from the per-report capability (both
  capabilities end in state 2, having started in 7 and 0). Nothing is written to
  \<open>output\<close>.
\<close>

theorem Encoder_Encode_invalid_runs:
  "\<not> Encoder_IsValid (Encoder_Encoder [] 0 \<lparr>num_bits = 12, num_hashes = 1\<rparr>
       (stub_det 0x05 0x0F) (stub_rand 0 (- 1))) \<and>
   Encoder_Encode_bits (Encoder_Encoder [] 0 \<lparr>num_bits = 12, num_hashes = 1\<rparr>
       (stub_det 0x05 0x0F) (stub_rand 0 (- 1))) 0 [0x78] (7 :: nat) (0 :: nat)
     = Inr \<lparr> l_bloom = 0x200, l_f_bits = 0x05, l_uniform = 0x0F, l_prr = 0x205,
             l_p_bits = 0, l_q_bits = - 1, l_irr = 0x205, l_det = 2, l_rand = 2 \<rparr> \<and>
   Encoder_Encode (Encoder_Encoder [] 0 \<lparr>num_bits = 12, num_hashes = 1\<rparr>
       (stub_det 0x05 0x0F) (stub_rand 0 (- 1))) 0 [0x78] [[]] (7 :: nat) (0 :: nat)
     = Inr ([[]], 2, 2)"
proof -
  let ?e = "Encoder_Encoder [] 0 \<lparr>num_bits = 12, num_hashes = 1\<rparr>
       (stub_det 0x05 0x0F) (stub_rand 0 (- 1)) :: (nat, nat) Encoder"
  have invalid: "\<not> Encoder_IsValid ?e"
    by (simp add: Encoder_IsValid_def Encoder_Encoder_def Let_def)
  have hash: "hash_loop (params ?e) [0x78] 0 0 = Inr 0x200"
    by (simp add: Encoder_Encoder_def Let_def hash_loop_x12)
  have bits: "Encoder_Encode_bits ?e 0 [0x78] 7 0 =
     Inr \<lparr> l_bloom = 0x200, l_f_bits = 0x05, l_uniform = 0x0F, l_prr = 0x205,
           l_p_bits = 0, l_q_bits = - 1, l_irr = 0x205, l_det = 2, l_rand = 2 \<rparr>"
    by (simp add: Encoder_Encode_bits_run [OF hash refl refl refl refl])
      (simp add: Encoder_Encoder_def Let_def stub_det_def stub_rand_def)
  have w: "write_output 0 0x205 [[]] = Inr [[]]"
    by (simp add: write_output_def copy_irr.simps)
  have "Encoder_Encode ?e 0 [0x78] [[]] 7 0 = Inr ([[]], 2, 2)"
    by (simp add: Encoder_Encode_def bits Encoder_invalid_num_bytes [OF invalid] w)
  with invalid bits show ?thesis by blast
qed

text \<open>
  C8, amended. \<open>Encode\<close> does not consult the validity flag. On an encoder that the
  constructor has marked invalid, hashing and both randomization passes run as on a
  valid one, unless the division of line 68 traps (which, \<open>num_bits\<close> not being a
  multiple of 8, needs \<open>num_bits = -1\<close> and the hash \<open>INT_MIN\<close>): the deterministic
  capability is reseeded with the value and drawn from twice, and the per-report
  capability is drawn from twice. Since the constructor leaves \<open>num_bytes_\<close> at 0 for
  such an encoder, the copying loop does not run and the strings behind \<open>output\<close> stay
  as they were.
\<close>

theorem Encoder_Encode_ignores_validity:
  assumes "e = Encoder_Encoder name c ps dr rr" and "\<not> Encoder_IsValid e"
    and "0 < sint (num_hashes ps) \<longrightarrow> \<not> remainder_traps (hash_value v) (num_bits ps)"
    and "out \<noteq> []"
  shows "\<exists>l. Encoder_Encode_bits e bloom0 v d r = Inr l \<and>
     hash_loop ps v 0 bloom0 = Inr (l_bloom l) \<and>
     l_det l = snd (uniform dr (snd (f_bits dr (seed dr v d)))) \<and>
     l_rand l = snd (q_bits rr (snd (p_bits rr r))) \<and>
     Encoder_Encode e bloom0 v out d r = Inr (out, l_det l, l_rand l)"
proof -
  have sel: "params e = ps" "det_rand e = dr" "rand e = rr"
    using assms(1) by (simp_all add: Encoder_Encoder_def Let_def)
  have n: "num_bytes e = 0"
    using assms(1,2) by (simp add: Encoder_invalid_num_bytes)
  from hash_loop_returns [OF assms(3)] obtain bloom
    where "hash_loop ps v 0 bloom0 = Inr bloom" ..
  then have hash: "hash_loop (params e) v 0 bloom0 = Inr bloom"
    by (simp add: sel)
  note run = Encoder_Encode_bits_run [OF hash refl refl refl refl, of d r]
  from assms(4) have w: "write_output 0 irr out = Inr out" for irr
    by (simp add: write_output_def copy_irr_exit)
  from hash have hash': "hash_loop ps v 0 bloom0 = Inr bloom"
    by (simp add: sel)
  show ?thesis
    by (rule exI, intro conjI, rule run) (simp_all add: Encoder_Encode_def run n w sel hash')
qed

theorem Encoder_Encode_ignores_validity_witness:
  "\<not> Encoder_IsValid (Encoder_Encoder [] 0 \<lparr>num_bits = 12, num_hashes = 1\<rparr>
       (stub_det 0x05 0x0F) (stub_rand 0 (- 1))) \<and>
   (0 :: int) < sint (num_hashes \<lparr>num_bits = 12, num_hashes = 1\<rparr>) \<and>
   \<not> remainder_traps (hash_value [0x61, 0x62, 0x63, 0x64, 0x65, 0x66])
      (num_bits \<lparr>num_bits = 12, num_hashes = 1\<rparr>) \<and>
   [[0x55 :: 8 word]] \<noteq> [] \<and>
   (\<exists>l. Encoder_Encode_bits (Encoder_Encoder [] 0 \<lparr>num_bits = 12, num_hashes = 1\<rparr>
       (stub_det 0x05 0x0F) (stub_rand 0 (- 1))) 0 [0x61, 0x62, 0x63, 0x64, 0x65, 0x66]
       (7 :: nat) (0 :: nat) = Inr l \<and>
     l_bloom l = 0x40000000 \<and> l_det l = 2 \<and> l_rand l = 2 \<and>
     Encoder_Encode (Encoder_Encoder [] 0 \<lparr>num_bits = 12, num_hashes = 1\<rparr>
       (stub_det 0x05 0x0F) (stub_rand 0 (- 1))) 0 [0x61, 0x62, 0x63, 0x64, 0x65, 0x66]
       [[0x55]] 7 0 = Inr ([[0x55]], 2, 2))"
proof -
  let ?ps = "\<lparr>num_bits = 12, num_hashes = 1\<rparr>"
  let ?e = "Encoder_Encoder [] 0 ?ps (stub_det 0x05 0x0F) (stub_rand 0 (- 1))
       :: (nat, nat) Encoder"
  let ?v = "[0x61, 0x62, 0x63, 0x64, 0x65, 0x66] :: cxx_string"
  have invalid: "\<not> Encoder_IsValid ?e"
    by (simp add: Encoder_IsValid_def Encoder_Encoder_def Let_def)
  have runs: "(0 :: int) < sint (num_hashes ?ps)"
    by simp
  have no_trap: "0 < sint (num_hashes ?ps) \<longrightarrow>
     \<not> remainder_traps (hash_value ?v) (num_bits ?ps)"
    by (simp add: remainder_traps_def)
  have nonempty: "[[0x55 :: 8 word]] \<noteq> []" by simp
  have bloom: "hash_loop ?ps ?v 0 0 = Inr 0x40000000"
    by (simp add: hash_loop.simps hash_value_def hash_step_def bit_to_set_of_def
        remainder_traps_def shl_one_def)
  from Encoder_Encode_ignores_validity [OF refl invalid no_trap nonempty, of 0 7 0]
  obtain l where "Encoder_Encode_bits ?e 0 ?v 7 0 = Inr l"
    "hash_loop ?ps ?v 0 0 = Inr (l_bloom l)"
    "l_det l = snd (uniform (stub_det 0x05 0x0F)
        (snd (f_bits (stub_det 0x05 0x0F) (seed (stub_det 0x05 0x0F) ?v 7))))"
    "l_rand l = snd (q_bits (stub_rand 0 (- 1)) (snd (p_bits (stub_rand 0 (- 1)) 0)))"
    "Encoder_Encode ?e 0 ?v [[0x55]] 7 0 = Inr ([[0x55]], l_det l, l_rand l)"
    by blast
  then have "Encoder_Encode_bits ?e 0 ?v 7 0 = Inr l \<and>
     l_bloom l = 0x40000000 \<and> l_det l = 2 \<and> l_rand l = 2 \<and>
     Encoder_Encode ?e 0 ?v [[0x55]] 7 0 = Inr ([[0x55]], 2, 2)"
    by (simp add: bloom stub_det_def stub_rand_def)
  then have "\<exists>l. Encoder_Encode_bits ?e 0 ?v 7 0 = Inr l \<and>
     l_bloom l = 0x40000000 \<and> l_det l = 2 \<and> l_rand l = 2 \<and>
     Encoder_Encode ?e 0 ?v [[0x55]] 7 0 = Inr ([[0x55]], 2, 2)"
    by (rule exI [of _ l])
  moreover from no_trap runs
  have "\<not> remainder_traps (hash_value ?v) (num_bits ?ps)" by blast
  ultimately show ?thesis using invalid runs nonempty by (intro conjI)
qed

section \<open>Hashing of the direct-hash encoder\<close>

lemma hash_step_33: "hash_step h c = h * 33 + scast c"
  by (simp add: hash_step_def push_bit_eq_mult)

lemma scast_one_bit:
  "n < 31 \<Longrightarrow> (scast (push_bit n (1 :: cint)) :: ByteVector) = push_bit n 1"
  by (rule bit_word_eqI) (auto simp add: bit_simps)

lemma bit_to_set_of_nonneg:
  assumes "0 \<le> sint h" and "0 < sint nb"
  shows "bit_to_set_of h nb = Inr (word_of_int (sint h mod sint nb))"
proof -
  from assms(2) have "nb \<noteq> 0" by auto
  moreover from assms(1) have "sint h \<noteq> - (2 ^ 31)" by simp
  moreover from assms have "sint h smod sint nb = sint h mod sint nb"
    by (simp add: smod_mod_positive)
  ultimately show ?thesis by (simp add: bit_to_set_of_def remainder_traps_def)
qed


lemma hash_loop_first:
  assumes "0 < sint (num_hashes ps)"
  shows "hash_loop ps v 0 bloom0 = hash_loop (ps\<lparr>num_hashes := 1\<rparr>) v 0 bloom0"
proof -
  have "(0 :: int) < sint (num_hashes (ps\<lparr>num_hashes := 1\<rparr>))" by simp
  from hash_loop_same_bit [OF assms, of v bloom0] hash_loop_same_bit [OF this, of v bloom0]
  show ?thesis by simp
qed

text \<open>
  C4, amended. The hash of \<open>Encoder::Encode\<close> is computed from the value alone, by the
  recurrence \<open>h = h*33 + byte\<close> (the source's \<open>(h << 5) + h + byte\<close>) in wrapping 32-bit
  arithmetic, seeded at 5381; the hash index is not combined into it, so the loop over
  \<open>num_hashes\<close> indices has the effect of its first iteration. When \<open>h\<close> is not
  negative, \<open>num_bits\<close> is positive and \<open>h mod num_bits\<close> is at most 30, that effect is
  to set the bit at position \<open>h mod num_bits\<close> in \<open>bloom\<close>.
\<close>

theorem hash_stage_one_bit:
  assumes "0 < sint (num_hashes ps)" and "0 < sint (num_bits ps)"
    and "0 \<le> sint (hash_value v)"
    and "sint (hash_value v) mod sint (num_bits ps) < 31"
  shows "hash_value v = foldl (\<lambda>h c. h * 33 + scast c) 5381 v \<and>
     hash_loop ps v 0 bloom0 = hash_loop (ps\<lparr>num_hashes := 1\<rparr>) v 0 bloom0 \<and>
     hash_loop ps v 0 bloom0 =
       Inr (bloom0 OR push_bit (nat (sint (hash_value v) mod sint (num_bits ps))) 1)"
proof -
  let ?m = "sint (hash_value v) mod sint (num_bits ps)"
  have rec: "hash_value v = foldl (\<lambda>h c. h * 33 + scast c) 5381 v"
    unfolding hash_value_def using hash_step_33 by presburger
  from assms(2) have pos: "0 \<le> ?m" by simp
  with assms(4) have "uint (word_of_int ?m :: cuint) = ?m"
    by (simp add: uint_word_of_int)
  then have "unat (word_of_int ?m :: cuint) = nat ?m"
    by (simp add: unat_eq_nat_uint)
  with pos assms(4) have shl: "shl_one (word_of_int ?m) = push_bit (nat ?m) 1"
    by (simp add: shl_one_mod)
  from pos assms(4) have "nat ?m < 31" by simp
  then have ext: "(scast (push_bit (nat ?m) (1 :: cint)) :: ByteVector) = push_bit (nat ?m) 1"
    by (rule scast_one_bit)
  have "hash_loop ps v 0 bloom0 = Inr (bloom0 OR scast (push_bit (nat ?m) (1 :: cint)))"
    by (simp add: hash_loop_same_bit [OF assms(1)] bit_to_set_of_nonneg [OF assms(3) assms(2)]
        shl)
  then have "hash_loop ps v 0 bloom0 = Inr (bloom0 OR push_bit (nat ?m) 1)"
    by (simp only: ext)
  with rec hash_loop_first [OF assms(1)] show ?thesis by blast
qed

theorem hash_stage_one_bit_witness:
  "(0 :: int) < sint (num_hashes \<lparr>num_bits = 8, num_hashes = 2\<rparr>) \<and>
   (0 :: int) < sint (num_bits \<lparr>num_bits = 8, num_hashes = 2\<rparr>) \<and>
   sint (hash_value [0x61]) = 177670 \<and>
   hash_loop \<lparr>num_bits = 8, num_hashes = 2\<rparr> [0x61] 0 0 = Inr 0x40 \<and>
   hash_loop \<lparr>num_bits = 8, num_hashes = 2\<rparr> [0x61] 0 0 =
     hash_loop \<lparr>num_bits = 8, num_hashes = 1\<rparr> [0x61] 0 0"
proof -
  let ?ps = "\<lparr>num_bits = 8, num_hashes = 2\<rparr>"
  have n: "(0 :: int) < sint (num_hashes ?ps)" and w: "(0 :: int) < sint (num_bits ?ps)"
    by simp_all
  have h: "sint (hash_value [0x61]) = 177670"
    by (simp add: hash_value_def hash_step_def)
  then have nonneg: "0 \<le> sint (hash_value [0x61])"
    and low: "sint (hash_value [0x61]) mod sint (num_bits ?ps) < 31"
    by simp_all
  from hash_stage_one_bit [OF n w nonneg low, of 0]
  have "hash_loop ?ps [0x61] 0 0 = hash_loop (?ps\<lparr>num_hashes := 1\<rparr>) [0x61] 0 0"
    and "hash_loop ?ps [0x61] 0 0 =
       Inr (0 OR push_bit (nat (sint (hash_value [0x61]) mod sint (num_bits ?ps))) 1)"
    by blast+
  then have "hash_loop ?ps [0x61] 0 0 = hash_loop \<lparr>num_bits = 8, num_hashes = 1\<rparr> [0x61] 0 0"
    and "hash_loop ?ps [0x61] 0 0 = Inr 0x40"
    by (simp_all add: h)
  with n w h show ?thesis by blast
qed

text \<open>
  Against C4 as stated. For the value \<open>a\<close> the source's recurrence gives 177670 and
  the recurrence \<open>h*33 + h + byte\<close> gives 183051; with \<open>num_bits = 8\<close> and two hash
  indices the loop sets bit 6 and no other, where 183051 selects bit 3. For the value
  \<open>abcdef\<close> the hash is negative, the remainder is \<open>-6\<close>, which as
  \<open>unsigned int\<close> is 4294967290, not a position below \<open>num_bits\<close>: the shift uses
  the low five bits of that count and sets bit 26. For the value \<open>z\<close>
  and \<open>num_bits = 32\<close> the position is 31, and the \<open>int\<close> value \<open>1 << 31\<close> is
  sign-extended into \<open>bloom\<close>: bits 31 to 63 are set, not bit 31 alone.
\<close>

theorem hash_stage_as_claimed_fails:
  "hash_value [0x61] \<noteq> foldl claimed_hash_step 5381 [0x61] \<and>
   hash_value [0x61] = 177670 \<and>
   foldl claimed_hash_step 5381 [0x61] = 183051 \<and>
   hash_loop \<lparr>num_bits = 8, num_hashes = 2\<rparr> [0x61] 0 0 = Inr (push_bit 6 1) \<and>
   (183051 :: int) mod 8 = 3 \<and>
   sint (hash_value [0x61, 0x62, 0x63, 0x64, 0x65, 0x66]) = - 246887558 \<and>
   bit_to_set_of (hash_value [0x61, 0x62, 0x63, 0x64, 0x65, 0x66]) 8 = Inr 4294967290 \<and>
   hash_loop \<lparr>num_bits = 8, num_hashes = 1\<rparr> [0x61, 0x62, 0x63, 0x64, 0x65, 0x66] 0 0
     = Inr (push_bit 26 1) \<and>
   hash_value [0x7A] = 177695 \<and> (177695 :: int) mod 32 = 31 \<and>
   hash_loop \<lparr>num_bits = 32, num_hashes = 1\<rparr> [0x7A] 0 0 = Inr 0xFFFFFFFF80000000"
proof -
  have a: "hash_value [0x61] = 177670"
    by (simp add: hash_value_def hash_step_def)
  have b: "foldl claimed_hash_step 5381 [0x61] = 183051"
    by (simp add: claimed_hash_step_def)
  have c: "hash_loop \<lparr>num_bits = 8, num_hashes = 2\<rparr> [0x61] 0 0 = Inr (push_bit 6 1)"
    by (simp add: hash_loop.simps a bit_to_set_of_def remainder_traps_def shl_one_def)
  have d: "hash_value [0x61, 0x62, 0x63, 0x64, 0x65, 0x66] = 4048079738"
    by (simp add: hash_value_def hash_step_def)
  have e: "sint (4048079738 :: cint) = - 246887558"
    by simp
  have f: "bit_to_set_of 4048079738 8 = Inr 4294967290"
    by (simp add: bit_to_set_of_def remainder_traps_def)
  have g: "hash_loop \<lparr>num_bits = 8, num_hashes = 1\<rparr> [0x61, 0x62, 0x63, 0x64, 0x65, 0x66] 0 0
     = Inr (push_bit 26 1)"
    by (simp add: hash_loop.simps d f shl_one_def)
  have h: "hash_value [0x7A] = 177695"
    by (simp add: hash_value_def hash_step_def)
  have i: "hash_loop \<lparr>num_bits = 32, num_hashes = 1\<rparr> [0x7A] 0 0 = Inr 0xFFFFFFFF80000000"
    by (simp add: hash_loop.simps h bit_to_set_of_def remainder_traps_def shl_one_def)
  from a b c d e f g h i show ?thesis by simp
qed

end
